theory Spec2Isabelle
  imports Main "HOL-Library.AList"
begin

section \<open>Python values, objects and the heap\<close>

text \<open>
  The message helpers of nanograph take dynamically typed input: a string, a single
  message dictionary, a list of messages or a list of lists of messages. Two of them
  (\<open>add_context_to_messages\<close>, \<open>swap_system_prompt\<close>) copy a list and then edit the
  copy or a dictionary in place. Lists, tuples and dictionaries are therefore objects of
  an explicit heap, addressed by their index; strings, integers and \<open>None\<close> are
  immediate values. A dictionary is an association list in insertion order with string
  keys (\<open>Dict[str, Any]\<close> in the source). A function that can raise returns
  \<open>Inl\<close> of the exception; one that allocates or mutates also returns the heap, which is
  kept when it raises, since a mutation made before an exception stays.
\<close>

datatype pyval = PNone | PInt int | PStr string | PRef nat

datatype pyobj =
    OList "pyval list"
  | OTuple "pyval list"
  | ODict "(string \<times> pyval) list"

type_synonym heap = "pyobj list"

datatype error =
    ValueError string
  | TypeError
  | IndexError
  | KeyError pyval

definition obj_at :: "heap \<Rightarrow> nat \<Rightarrow> pyobj option" where
  "obj_at h a = (if a < length h then Some (h ! a) else None)"

definition alloc :: "heap \<Rightarrow> pyobj \<Rightarrow> pyval \<times> heap" where
  "alloc h ob = (PRef (length h), h @ [ob])"

subsection \<open>The built-in operations the helpers use\<close>

definition isinstance_str :: "pyval \<Rightarrow> bool" where
  "isinstance_str v = (case v of PStr s \<Rightarrow> True | _ \<Rightarrow> False)"

definition isinstance_List :: "heap \<Rightarrow> pyval \<Rightarrow> bool" where
  "isinstance_List h v =
     (case v of
        PRef a \<Rightarrow> (case obj_at h a of Some (OList xs) \<Rightarrow> True | _ \<Rightarrow> False)
      | _ \<Rightarrow> False)"

definition isinstance_Dict :: "heap \<Rightarrow> pyval \<Rightarrow> bool" where
  "isinstance_Dict h v =
     (case v of
        PRef a \<Rightarrow> (case obj_at h a of Some (ODict d) \<Rightarrow> True | _ \<Rightarrow> False)
      | _ \<Rightarrow> False)"

definition isinstance_list_tuple :: "heap \<Rightarrow> pyval \<Rightarrow> bool" where
  "isinstance_list_tuple h v =
     (case v of
        PRef a \<Rightarrow>
          (case obj_at h a of
             Some (OList xs) \<Rightarrow> True
           | Some (OTuple xs) \<Rightarrow> True
           | _ \<Rightarrow> False)
      | _ \<Rightarrow> False)"

text \<open>Substring containment, which is what \<open>in\<close> means between two strings.\<close>

fun starts_with :: "string \<Rightarrow> string \<Rightarrow> bool" where
  "starts_with s [] = True"
| "starts_with [] (c # cs) = False"
| "starts_with (d # ds) (c # cs) = (d = c \<and> starts_with ds cs)"

fun str_contains :: "string \<Rightarrow> string \<Rightarrow> bool" where
  "str_contains [] key = starts_with [] key"
| "str_contains (d # ds) key = (starts_with (d # ds) key \<or> str_contains ds key)"

text \<open>
  \<open>key in v\<close> for a string \<open>key\<close>: substring containment in a string, element
  membership in a list or tuple, key membership in a dictionary, and a \<open>TypeError\<close> for a
  value that is not a container.
\<close>

definition py_contains :: "heap \<Rightarrow> string \<Rightarrow> pyval \<Rightarrow> error + bool" where
  "py_contains h key v =
     (case v of
        PStr s \<Rightarrow> Inr (str_contains s key)
      | PRef a \<Rightarrow>
          (case obj_at h a of
             Some (OList xs) \<Rightarrow> Inr (PStr key \<in> set xs)
           | Some (OTuple xs) \<Rightarrow> Inr (PStr key \<in> set xs)
           | Some (ODict d) \<Rightarrow> Inr (key \<in> set (map fst d))
           | None \<Rightarrow> Inl TypeError)
      | _ \<Rightarrow> Inl TypeError)"

text \<open>\<open>v[key]\<close> for a string \<open>key\<close>: only a dictionary can be subscripted by a string.\<close>

definition py_getitem_key :: "heap \<Rightarrow> pyval \<Rightarrow> string \<Rightarrow> error + pyval" where
  "py_getitem_key h v key =
     (case v of
        PRef a \<Rightarrow>
          (case obj_at h a of
             Some (ODict d) \<Rightarrow>
               (case map_of d key of
                  Some x \<Rightarrow> Inr x
                | None \<Rightarrow> Inl (KeyError (PStr key)))
           | _ \<Rightarrow> Inl TypeError)
      | _ \<Rightarrow> Inl TypeError)"

text \<open>\<open>v[0]\<close>: the first element of a sequence, \<open>IndexError\<close> on an empty one.\<close>

definition py_getitem0 :: "heap \<Rightarrow> pyval \<Rightarrow> error + pyval" where
  "py_getitem0 h v =
     (case v of
        PStr s \<Rightarrow> (case s of [] \<Rightarrow> Inl IndexError | c # cs \<Rightarrow> Inr (PStr [c]))
      | PRef a \<Rightarrow>
          (case obj_at h a of
             Some (OList xs) \<Rightarrow> (case xs of [] \<Rightarrow> Inl IndexError | x # ys \<Rightarrow> Inr x)
           | Some (OTuple xs) \<Rightarrow> (case xs of [] \<Rightarrow> Inl IndexError | x # ys \<Rightarrow> Inr x)
           | Some (ODict d) \<Rightarrow> Inl (KeyError (PInt 0))
           | None \<Rightarrow> Inl TypeError)
      | _ \<Rightarrow> Inl TypeError)"

text \<open>
  Iteration (\<open>for x in v\<close>, \<open>list(v)\<close>): the elements of a list or tuple, the characters
  of a string, the keys of a dictionary.
\<close>

definition py_iter :: "heap \<Rightarrow> pyval \<Rightarrow> error + pyval list" where
  "py_iter h v =
     (case v of
        PStr s \<Rightarrow> Inr (map (\<lambda>c. PStr [c]) s)
      | PRef a \<Rightarrow>
          (case obj_at h a of
             Some (OList xs) \<Rightarrow> Inr xs
           | Some (OTuple xs) \<Rightarrow> Inr xs
           | Some (ODict d) \<Rightarrow> Inr (map (\<lambda>kv. PStr (fst kv)) d)
           | None \<Rightarrow> Inl TypeError)
      | _ \<Rightarrow> Inl TypeError)"

text \<open>Truth value, as \<open>not messages\<close> tests it.\<close>

definition py_truthy :: "heap \<Rightarrow> pyval \<Rightarrow> bool" where
  "py_truthy h v =
     (case v of
        PNone \<Rightarrow> False
      | PInt i \<Rightarrow> i \<noteq> 0
      | PStr s \<Rightarrow> s \<noteq> []
      | PRef a \<Rightarrow>
          (case obj_at h a of
             Some (OList xs) \<Rightarrow> xs \<noteq> []
           | Some (OTuple xs) \<Rightarrow> xs \<noteq> []
           | Some (ODict d) \<Rightarrow> d \<noteq> []
           | None \<Rightarrow> True))"

text \<open>
  The list statements \<open>l[i] = v\<close>, \<open>del l[i]\<close>, \<open>l.insert(0, v)\<close> and \<open>l.append(v)\<close>
  on the list object at address \<open>l\<close>.
\<close>

definition list_setitem :: "heap \<Rightarrow> nat \<Rightarrow> nat \<Rightarrow> pyval \<Rightarrow> error + heap" where
  "list_setitem h l i v =
     (case obj_at h l of
        Some (OList xs) \<Rightarrow>
          (if i < length xs then Inr (h[l := OList (xs[i := v])]) else Inl IndexError)
      | _ \<Rightarrow> Inl TypeError)"

definition list_delitem :: "heap \<Rightarrow> nat \<Rightarrow> nat \<Rightarrow> error + heap" where
  "list_delitem h l i =
     (case obj_at h l of
        Some (OList xs) \<Rightarrow>
          (if i < length xs then Inr (h[l := OList (take i xs @ drop (Suc i) xs)])
           else Inl IndexError)
      | _ \<Rightarrow> Inl TypeError)"

definition list_insert0 :: "heap \<Rightarrow> nat \<Rightarrow> pyval \<Rightarrow> error + heap" where
  "list_insert0 h l v =
     (case obj_at h l of
        Some (OList xs) \<Rightarrow> Inr (h[l := OList (v # xs)])
      | _ \<Rightarrow> Inl TypeError)"

definition list_append :: "heap \<Rightarrow> nat \<Rightarrow> pyval \<Rightarrow> error + heap" where
  "list_append h l v =
     (case obj_at h l of
        Some (OList xs) \<Rightarrow> Inr (h[l := OList (xs @ [v])])
      | _ \<Rightarrow> Inl TypeError)"

section \<open>nanograph/\_utils/messages.py\<close>

text \<open>
  \<open>determine_if_batch\<close>: a string is no batch, a value that is not a list is no batch,
  and a list is a batch when its first element is a list. The subscript \<open>messages[0]\<close>
  is not guarded, so it raises on the empty list.
\<close>

definition determine_if_batch :: "heap \<Rightarrow> pyval \<Rightarrow> error + bool" where
  "determine_if_batch h messages =
     (if isinstance_str messages then Inr False
      else if \<not> isinstance_List h messages then Inr False
      else (case py_getitem0 h messages of
              Inl e \<Rightarrow> Inl e
            | Inr x \<Rightarrow> Inr (isinstance_List h x)))"

text \<open>
  The test both loops of \<open>format_messages\<close> apply to an element:
  \<open>not isinstance(message, Dict) or "role" not in message\<close> raises \<open>ValueError\<close>.
  (The call of \<open>logger.error\<close> before each raise writes to the log only.)
\<close>

fun check_messages :: "heap \<Rightarrow> pyval list \<Rightarrow> error + unit" where
  "check_messages h [] = Inr ()"
| "check_messages h (message # rest) =
     (if \<not> isinstance_Dict h message then Inl (ValueError ''Invalid message format'')
      else (case py_contains h ''role'' message of
              Inl e \<Rightarrow> Inl e
            | Inr b \<Rightarrow>
                (if \<not> b then Inl (ValueError ''Invalid message format'')
                 else check_messages h rest)))"

fun check_threads :: "heap \<Rightarrow> pyval list \<Rightarrow> error + unit" where
  "check_threads h [] = Inr ()"
| "check_threads h (thread # rest) =
     (case py_iter h thread of
        Inl e \<Rightarrow> Inl e
      | Inr ms \<Rightarrow>
          (case check_messages h ms of
             Inl e \<Rightarrow> Inl e
           | Inr u \<Rightarrow> check_threads h rest))"

definition utils_format_messages :: "heap \<Rightarrow> pyval \<Rightarrow> (error + pyval) \<times> heap" where
  "utils_format_messages h messages =
     (case messages of
        PStr s \<Rightarrow>
          (let (m, h1) = alloc h (ODict [(''role'', PStr ''user''), (''content'', PStr s)]);
               (r, h2) = alloc h1 (OList [m])
           in (Inr r, h2))
      | _ \<Rightarrow>
          (case determine_if_batch h messages of
             Inl e \<Rightarrow> (Inl e, h)
           | Inr True \<Rightarrow>
               (case py_iter h messages of
                  Inl e \<Rightarrow> (Inl e, h)
                | Inr threads \<Rightarrow>
                    (case check_threads h threads of
                       Inl e \<Rightarrow> (Inl e, h)
                     | Inr u \<Rightarrow> (Inr messages, h)))
           | Inr False \<Rightarrow>
               (if isinstance_Dict h messages \<and> py_contains h ''role'' messages = Inr True
                then (let (r, h1) = alloc h (OList [messages]) in (Inr r, h1))
                else if \<not> isinstance_List h messages
                then (Inl (ValueError ''Invalid messages format''), h)
                else (case py_iter h messages of
                        Inl e \<Rightarrow> (Inl e, h)
                      | Inr ms \<Rightarrow>
                          (case check_messages h ms of
                             Inl e \<Rightarrow> (Inl e, h)
                           | Inr u \<Rightarrow> (Inr messages, h))))))"

section \<open>messages.py\<close>

text \<open>
  Modelled from the spec: the type \<open>Message\<close>, imported from
  \<open>..types.completions.message\<close>, is not among the sources. It is the role and
  content record of the specification, a mapping, so that
  \<open>construct_message(content, role)\<close>, which returns
  \<open>Message(role=role, content=content)\<close>, builds a new dictionary with the two keys in
  this order. The \<open>utility\<close> decorator on every function of this file is
  \<open>log_function\<close> of nanograph/lib/\_logging.py: it logs the call, returns the result of
  the function and re-raises its exception, so it changes neither of them.
\<close>

definition construct_message :: "heap \<Rightarrow> pyval \<Rightarrow> string \<Rightarrow> pyval \<times> heap" where
  "construct_message h content role =
     alloc h (ODict [(''role'', PStr role), (''content'', content)])"

fun validate_loop :: "heap \<Rightarrow> pyval list \<Rightarrow> error + unit" where
  "validate_loop h [] = Inr ()"
| "validate_loop h (message # rest) =
     (case py_contains h ''role'' message of
        Inl e \<Rightarrow> Inl e
      | Inr b \<Rightarrow>
          (if \<not> b then Inl (ValueError ''message must have a role'')
           else validate_loop h rest))"

definition validate_thread_of_messages :: "heap \<Rightarrow> pyval \<Rightarrow> error + pyval" where
  "validate_thread_of_messages h messages =
     (case py_iter h messages of
        Inl e \<Rightarrow> Inl e
      | Inr ms \<Rightarrow>
          (case validate_loop h ms of
             Inl e \<Rightarrow> Inl e
           | Inr u \<Rightarrow> Inr messages))"

text \<open>
  The loop of the batch branch of \<open>format_messages\<close>: each thread is validated and
  appended to the list \<open>formatted_threads\<close> at address \<open>l\<close>.
\<close>

fun format_threads :: "heap \<Rightarrow> nat \<Rightarrow> pyval list \<Rightarrow> (error + unit) \<times> heap" where
  "format_threads h l [] = (Inr (), h)"
| "format_threads h l (thread # rest) =
     (case validate_thread_of_messages h thread of
        Inl e \<Rightarrow> (Inl e, h)
      | Inr v \<Rightarrow>
          (case list_append h l v of
             Inl e \<Rightarrow> (Inl e, h)
           | Inr h1 \<Rightarrow> format_threads h1 l rest))"

definition format_messages :: "heap \<Rightarrow> pyval \<Rightarrow> (error + pyval) \<times> heap" where
  "format_messages h messages =
     (if isinstance_str messages then
        (let (m, h1) = construct_message h messages ''user'';
             (r, h2) = alloc h1 (OList [m])
         in (Inr r, h2))
      else if \<not> isinstance_List h messages then
        (case py_contains h ''role'' messages of
           Inl e \<Rightarrow> (Inl e, h)
         | Inr b \<Rightarrow>
             (if b then (let (r, h1) = alloc h (OList [messages]) in (Inr r, h1))
              else (Inl (ValueError
                     ''messages must be a string, message, or a list of messages''), h)))
      else
        (case py_getitem0 h messages of
           Inl e \<Rightarrow> (Inl e, h)
         | Inr x \<Rightarrow>
             (if \<not> isinstance_List h x then
                (validate_thread_of_messages h messages, h)
              else
                (let (r, h1) = alloc h (OList []) in
                 (case py_iter h1 messages of
                    Inl e \<Rightarrow> (Inl e, h1)
                  | Inr threads \<Rightarrow>
                      (case format_threads h1 (length h) threads of
                         (Inl e, h2) \<Rightarrow> (Inl e, h2)
                       | (Inr u, h2) \<Rightarrow> (Inr r, h2)))))))"

subsection \<open>add\_context\_to\_messages\<close>

text \<open>
  The remaining built-ins: \<open>l[i]\<close> on a list object, \<open>d[key] = v\<close> on a dictionary
  object (an existing key keeps its position, a new key goes to the end), and
  \<open>v += s\<close> for a string \<open>s\<close>, which concatenates to a string, extends a list object in
  place by the characters of \<open>s\<close>, and raises \<open>TypeError\<close> for every other value.
\<close>

definition list_getitem :: "heap \<Rightarrow> nat \<Rightarrow> nat \<Rightarrow> error + pyval" where
  "list_getitem h l i =
     (case obj_at h l of
        Some (OList xs) \<Rightarrow> (if i < length xs then Inr (xs ! i) else Inl IndexError)
      | _ \<Rightarrow> Inl TypeError)"

definition dict_setitem :: "heap \<Rightarrow> pyval \<Rightarrow> string \<Rightarrow> pyval \<Rightarrow> error + heap" where
  "dict_setitem h target key v =
     (case target of
        PRef a \<Rightarrow>
          (case obj_at h a of
             Some (ODict d) \<Rightarrow> Inr (h[a := ODict (AList.update key v d)])
           | _ \<Rightarrow> Inl TypeError)
      | _ \<Rightarrow> Inl TypeError)"

definition py_iadd_str :: "heap \<Rightarrow> pyval \<Rightarrow> string \<Rightarrow> (error + pyval) \<times> heap" where
  "py_iadd_str h v s =
     (case v of
        PStr c \<Rightarrow> (Inr (PStr (c @ s)), h)
      | PRef a \<Rightarrow>
          (case obj_at h a of
             Some (OList xs) \<Rightarrow>
               (Inr (PRef a), h[a := OList (xs @ map (\<lambda>c. PStr [c]) s)])
           | _ \<Rightarrow> (Inl TypeError, h))
      | _ \<Rightarrow> (Inl TypeError, h))"

text \<open>
  The scan \<open>for i, msg in enumerate(msg_list): if msg["role"] == "system": system_idx = i\<close>,
  with the running index and the value of \<open>system_idx\<close> so far. The text appended
  to the content, \<open>f"\n\n{context}"\<close>, is two line feeds and the context.
\<close>

fun find_system_idx :: "heap \<Rightarrow> nat \<Rightarrow> nat option \<Rightarrow> pyval list \<Rightarrow> error + nat option" where
  "find_system_idx h i system_idx [] = Inr system_idx"
| "find_system_idx h i system_idx (msg # rest) =
     (case py_getitem_key h msg ''role'' of
        Inl e \<Rightarrow> Inl e
      | Inr r \<Rightarrow>
          find_system_idx h (Suc i)
            (if r = PStr ''system'' then Some i else system_idx) rest)"

definition add_context_to_sequence ::
  "heap \<Rightarrow> pyval \<Rightarrow> string \<Rightarrow> (error + pyval) \<times> heap" where
  "add_context_to_sequence h msg_sequence context =
     (case py_iter h msg_sequence of
        Inl e \<Rightarrow> (Inl e, h)
      | Inr items \<Rightarrow>
          (let (msg_list, h1) = alloc h (OList items) in
           (case find_system_idx h1 0 None items of
              Inl e \<Rightarrow> (Inl e, h1)
            | Inr (Some system_idx) \<Rightarrow>
                (case list_getitem h1 (length h) system_idx of
                   Inl e \<Rightarrow> (Inl e, h1)
                 | Inr target \<Rightarrow>
                     (case py_getitem_key h1 target ''content'' of
                        Inl e \<Rightarrow> (Inl e, h1)
                      | Inr old \<Rightarrow>
                          (case py_iadd_str h1 old ([CHR 0x0A, CHR 0x0A] @ context) of
                             (Inl e, h2) \<Rightarrow> (Inl e, h2)
                           | (Inr new, h2) \<Rightarrow>
                               (case dict_setitem h2 target ''content'' new of
                                  Inl e \<Rightarrow> (Inl e, h2)
                                | Inr h3 \<Rightarrow> (Inr msg_list, h3)))))
            | Inr None \<Rightarrow>
                (let (m, h2) = construct_message h1 (PStr context) ''system'' in
                 (case list_insert0 h2 (length h) m of
                    Inl e \<Rightarrow> (Inl e, h2)
                  | Inr h3 \<Rightarrow> (Inr msg_list, h3))))))"

text \<open>
  The comprehension \<open>[_add_context_to_sequence(seq) for seq in messages]\<close> reads
  \<open>messages\<close> through its iterator: each step takes the element at the next index of
  the sequence as it is at that moment, and the loop ends when the index reaches its
  length. A thread whose system message has the list \<open>messages\<close> itself as content
  extends that list while the loop runs.
\<close>

definition next_item :: "heap \<Rightarrow> pyval \<Rightarrow> nat \<Rightarrow> pyval option" where
  "next_item h messages i =
     (case py_iter h messages of
        Inl e \<Rightarrow> None
      | Inr xs \<Rightarrow> (if i < length xs then Some (xs ! i) else None))"

function add_context_to_batch ::
  "heap \<Rightarrow> pyval \<Rightarrow> nat \<Rightarrow> string \<Rightarrow> (error + pyval list) \<times> heap" where
  "add_context_to_batch h messages i context =
     (case next_item h messages i of
        None \<Rightarrow> (Inr [], h)
      | Some seq \<Rightarrow>
          (case add_context_to_sequence h seq context of
             (Inl e, h1) \<Rightarrow> (Inl e, h1)
           | (Inr r, h1) \<Rightarrow>
               (case add_context_to_batch h1 messages (Suc i) context of
                  (Inl e, h2) \<Rightarrow> (Inl e, h2)
                | (Inr rs, h2) \<Rightarrow> (Inr (r # rs), h2))))"
  by pat_completeness auto

definition add_context_to_messages ::
  "heap \<Rightarrow> pyval \<Rightarrow> string \<Rightarrow> (error + pyval) \<times> heap" where
  "add_context_to_messages h messages context =
     (if \<not> py_truthy h messages then add_context_to_sequence h messages context
      else
        (case py_getitem0 h messages of
           Inl e \<Rightarrow> (Inl e, h)
         | Inr x \<Rightarrow>
             (if \<not> isinstance_list_tuple h x then
                add_context_to_sequence h messages context
              else
                (case add_context_to_batch h messages 0 context of
                   (Inl e, h1) \<Rightarrow> (Inl e, h1)
                 | (Inr rs, h1) \<Rightarrow>
                     (let (r, h2) = alloc h1 (OList rs) in (Inr r, h2))))))"

subsection \<open>swap\_system\_prompt\<close>

text \<open>
  The comprehension \<open>[i for i, msg in enumerate(msg_list) if msg["role"] == "system"]\<close>
  and the loop \<open>for idx in ...: del msg_list[idx]\<close>.
\<close>

fun system_indices :: "heap \<Rightarrow> nat \<Rightarrow> pyval list \<Rightarrow> error + nat list" where
  "system_indices h i [] = Inr []"
| "system_indices h i (msg # rest) =
     (case py_getitem_key h msg ''role'' of
        Inl e \<Rightarrow> Inl e
      | Inr r \<Rightarrow>
          (case system_indices h (Suc i) rest of
             Inl e \<Rightarrow> Inl e
           | Inr is \<Rightarrow> Inr (if r = PStr ''system'' then i # is else is)))"

fun delete_indices :: "heap \<Rightarrow> nat \<Rightarrow> nat list \<Rightarrow> (error + unit) \<times> heap" where
  "delete_indices h l [] = (Inr (), h)"
| "delete_indices h l (idx # rest) =
     (case list_delitem h l idx of
        Inl e \<Rightarrow> (Inl e, h)
      | Inr h1 \<Rightarrow> delete_indices h1 l rest)"

definition swap_system_prompt ::
  "heap \<Rightarrow> pyval \<Rightarrow> string \<Rightarrow> (error + pyval) \<times> heap" where
  "swap_system_prompt h messages prompt =
     (case py_iter h messages of
        Inl e \<Rightarrow> (Inl e, h)
      | Inr items \<Rightarrow>
          (let (msg_list, h1) = alloc h (OList items) in
           (case system_indices h1 0 items of
              Inl e \<Rightarrow> (Inl e, h1)
            | Inr idxs \<Rightarrow>
                (if idxs \<noteq> [] then
                   (let last_system_idx = last idxs;
                        (m, h2) = construct_message h1 (PStr prompt) ''system''
                    in (case list_setitem h2 (length h) last_system_idx m of
                          Inl e \<Rightarrow> (Inl e, h2)
                        | Inr h3 \<Rightarrow>
                            (case delete_indices h3 (length h) (rev (butlast idxs)) of
                               (Inl e, h4) \<Rightarrow> (Inl e, h4)
                             | (Inr u, h4) \<Rightarrow> (Inr msg_list, h4))))
                 else
                   (let (m, h2) = construct_message h1 (PStr prompt) ''system'' in
                    (case list_insert0 h2 (length h) m of
                       Inl e \<Rightarrow> (Inl e, h2)
                     | Inr h3 \<Rightarrow> (Inr msg_list, h3)))))))"

section \<open>Vocabulary of the specification\<close>

text \<open>
  A message is a mapping with a \<open>role\<close> key; a system message is one whose role is the
  string \<open>system\<close>, which is the test \<open>msg["role"] == "system"\<close> of the source.
\<close>

definition is_message :: "heap \<Rightarrow> pyval \<Rightarrow> bool" where
  "is_message h v = (isinstance_Dict h v \<and> py_contains h ''role'' v = Inr True)"

definition is_system :: "heap \<Rightarrow> pyval \<Rightarrow> bool" where
  "is_system h v = (py_getitem_key h v ''role'' = Inr (PStr ''system''))"

text \<open>A valid thread is a list object whose elements are messages.\<close>

definition is_thread :: "heap \<Rightarrow> pyval \<Rightarrow> bool" where
  "is_thread h t =
     (case t of
        PRef a \<Rightarrow>
          (case obj_at h a of
             Some (OList xs) \<Rightarrow> list_all (is_message h) xs
           | _ \<Rightarrow> False)
      | _ \<Rightarrow> False)"

text \<open>The dictionary that \<open>construct_message(prompt, role="system")\<close> builds.\<close>

definition system_message :: "string \<Rightarrow> pyobj" where
  "system_message prompt = ODict [(''role'', PStr ''system''), (''content'', PStr prompt)]"

text \<open>
  Two elements of a thread compare equal when they are the same value, or two
  dictionaries with the same items; for such lists \<open>==\<close> holds in Python.
\<close>

definition py_equal :: "heap \<Rightarrow> pyval \<Rightarrow> pyval \<Rightarrow> bool" where
  "py_equal h v w =
     (v = w \<or>
      (case (v, w) of
         (PRef a, PRef b) \<Rightarrow>
           (case (obj_at h a, obj_at h b) of
              (Some (ODict d), Some (ODict e)) \<Rightarrow> d = e
            | _ \<Rightarrow> False)
       | _ \<Rightarrow> False))"



text \<open>
  The error that the test raises for an element that does not pass it: the
  \<open>TypeError\<close> of \<open>in\<close> on a value that is no container, or else the \<open>ValueError\<close> of
  \<open>validate_thread_of_messages\<close>.
\<close>

definition role_error :: "heap \<Rightarrow> pyval \<Rightarrow> error" where
  "role_error h x =
     (case py_contains h ''role'' x of
        Inl e \<Rightarrow> e
      | Inr b \<Rightarrow> ValueError ''message must have a role'')"


text \<open>A string that is not empty; as a thread it raises, since a string has no \<open>role\<close>.\<close>

definition str_item :: "pyval \<Rightarrow> bool" where
  "str_item x = (case x of PStr s \<Rightarrow> s \<noteq> [] | _ \<Rightarrow> False)"

text \<open>
  The number of elements from index \<open>i\<close> on that the iterator of \<open>messages\<close> can
  still give before it comes to such a string.
\<close>

definition remaining :: "heap \<Rightarrow> pyval \<Rightarrow> nat \<Rightarrow> nat" where
  "remaining h messages i =
     (case py_iter h messages of
        Inl e \<Rightarrow> 0
      | Inr xs \<Rightarrow> length (takeWhile (\<lambda>x. \<not> str_item x) (drop i xs)))"

text \<open>The positions, counted from \<open>i\<close>, of the elements of a list that satisfy \<open>P\<close>.\<close>

fun positions :: "('a \<Rightarrow> bool) \<Rightarrow> nat \<Rightarrow> 'a list \<Rightarrow> nat list" where
  "positions P i [] = []"
| "positions P i (x # xs) =
     (if P x then i # positions P (Suc i) xs else positions P (Suc i) xs)"

section \<open>Properties of the heap and of the loops\<close>

lemma obj_at_append_old: "a < length h \<Longrightarrow> obj_at (h @ h') a = obj_at h a"
  by (simp add: obj_at_def nth_append)

lemma obj_at_append_new: "obj_at (h @ [ob]) (length h) = Some ob"
  by (simp add: obj_at_def)

lemma obj_at_Some_less: "obj_at h a = Some ob \<Longrightarrow> a < length h"
  by (simp add: obj_at_def split: if_splits)

lemma obj_at_update_same: "a < length h \<Longrightarrow> obj_at (h[a := ob]) a = Some ob"
  by (simp add: obj_at_def)

lemma obj_at_update_other: "a \<noteq> b \<Longrightarrow> obj_at (h[a := ob]) b = obj_at h b"
  by (simp add: obj_at_def)

lemma is_message_dict:
  "is_message h v \<Longrightarrow> \<exists>a d. v = PRef a \<and> obj_at h a = Some (ODict d) \<and> ''role'' \<in> fst ` set d"
  by (auto simp: is_message_def isinstance_Dict_def py_contains_def
           split: pyval.splits option.splits pyobj.splits)

lemma is_message_role:
  "is_message h v \<Longrightarrow> \<exists>r. py_getitem_key h v ''role'' = Inr r"
proof -
  assume "is_message h v"
  then obtain a d where v: "v = PRef a" "obj_at h a = Some (ODict d)" "''role'' \<in> fst ` set d"
    using is_message_dict by blast
  then obtain r where "map_of d ''role'' = Some r"
    by (metis domD dom_map_of_conv_image_fst)
  with v show ?thesis by (simp add: py_getitem_key_def)
qed

lemma getitem_key_Inr:
  "py_getitem_key h v k = Inr r \<Longrightarrow>
   \<exists>a d. v = PRef a \<and> obj_at h a = Some (ODict d) \<and> map_of d k = Some r"
  by (auto simp: py_getitem_key_def split: pyval.splits option.splits pyobj.splits)

lemma getitem_key_append:
  assumes "py_getitem_key h v k = Inr r"
  shows "py_getitem_key (h @ h') v k = Inr r"
proof -
  obtain a d where v: "v = PRef a" "obj_at h a = Some (ODict d)" "map_of d k = Some r"
    using getitem_key_Inr[OF assms] by blast
  then have "obj_at (h @ h') a = Some (ODict d)"
    using obj_at_append_old[OF obj_at_Some_less] by metis
  with v show ?thesis by (simp add: py_getitem_key_def)
qed

lemma is_message_append:
  assumes "is_message h v"
  shows "is_message (h @ h') v"
proof -
  obtain a d where v: "v = PRef a" "obj_at h a = Some (ODict d)" "''role'' \<in> fst ` set d"
    using is_message_dict[OF assms] by blast
  then have "obj_at (h @ h') a = Some (ODict d)"
    using obj_at_append_old[OF obj_at_Some_less] by metis
  with v show ?thesis
    by (simp add: is_message_def isinstance_Dict_def py_contains_def)
qed

lemma is_system_append:
  assumes "is_message h v"
  shows "is_system (h @ h') v = is_system h v"
proof -
  obtain r where r: "py_getitem_key h v ''role'' = Inr r"
    using is_message_role[OF assms] by blast
  from getitem_key_append[OF r] r show ?thesis by (simp add: is_system_def)
qed

lemma system_indices_positions:
  "list_all (is_message h) xs \<Longrightarrow> system_indices h i xs = Inr (positions (is_system h) i xs)"
proof (induction xs arbitrary: i)
  case Nil
  then show ?case by simp
next
  case (Cons x xs)
  from Cons.prems have "is_message h x" by simp
  then obtain r where r: "py_getitem_key h x ''role'' = Inr r"
    using is_message_role by blast
  from Cons.prems have "list_all (is_message h) xs" by simp
  from Cons.IH[OF this] r show ?case by (simp add: is_system_def)
qed

lemma positions_append:
  "positions P i (xs @ ys) = positions P i xs @ positions P (i + length xs) ys"
  by (induction xs arbitrary: i) auto

lemma positions_none: "\<not> list_ex P xs \<Longrightarrow> positions P i xs = []"
  by (induction xs arbitrary: i) auto

lemma delete_positions:
  "obj_at H l = Some (OList (pre @ rest)) \<Longrightarrow>
   delete_indices H l (rev (positions P 0 pre)) =
     (Inr (), H[l := OList (filter (\<lambda>x. \<not> P x) pre @ rest)])"
proof (induction pre arbitrary: rest H rule: rev_induct)
  case Nil
  then show ?case by (simp add: obj_at_def split: if_splits) (metis list_update_id)
next
  case (snoc y ys)
  have l: "l < length H" using snoc.prems by (rule obj_at_Some_less)
  show ?case
  proof (cases "P y")
    case True
    have del: "list_delitem H l (length ys) = Inr (H[l := OList (ys @ rest)])"
      using snoc.prems by (simp add: list_delitem_def)
    have "obj_at (H[l := OList (ys @ rest)]) l = Some (OList (ys @ rest))"
      using l by (simp add: obj_at_update_same)
    from snoc.IH[OF this] del True show ?thesis
      by (simp add: positions_append)
  next
    case False
    have "obj_at H l = Some (OList (ys @ y # rest))" using snoc.prems by simp
    from snoc.IH[OF this] False show ?thesis
      by (simp add: positions_append)
  qed
qed

lemma positions_cong:
  "(\<And>x. x \<in> set xs \<Longrightarrow> P x = Q x) \<Longrightarrow> positions P i xs = positions Q i xs"
  by (induction xs arbitrary: i) auto

lemma list_all_is_message_append:
  "list_all (is_message h) xs \<Longrightarrow> list_all (is_message (h @ h')) xs"
  by (simp add: list_all_iff is_message_append)

lemma positions_is_system_append:
  "list_all (is_message h) xs \<Longrightarrow>
   positions (is_system (h @ h')) i xs = positions (is_system h) i xs"
  by (rule positions_cong) (simp add: list_all_iff is_system_append)

lemma py_iter_list: "obj_at h a = Some (OList xs) \<Longrightarrow> py_iter h (PRef a) = Inr xs"
  by (simp add: py_iter_def)

lemma swap_with_system:
  assumes it: "py_iter h messages = Inr xs"
    and msgs: "list_all (is_message h) xs"
    and xs: "xs = pre @ s # post"
    and s: "is_system h s"
    and post: "\<not> list_ex (is_system h) post"
  shows "swap_system_prompt h messages prompt =
           (Inr (PRef (length h)),
            h @ [OList (filter (\<lambda>x. \<not> is_system h x) pre @ PRef (Suc (length h)) # post),
                 system_message prompt])"
proof -
  let ?n = "length h"
  let ?h1 = "h @ [OList xs]"
  let ?h2 = "h @ [OList xs] @ [system_message prompt]"
  let ?m = "PRef (Suc ?n)"
  let ?P = "is_system h"
  have idx: "system_indices ?h1 0 xs = Inr (positions ?P 0 pre @ [length pre])"
  proof -
    have "system_indices ?h1 0 xs = Inr (positions (is_system ?h1) 0 xs)"
      using list_all_is_message_append[OF msgs] by (rule system_indices_positions)
    also have "positions (is_system ?h1) 0 xs = positions ?P 0 xs"
      using msgs by (rule positions_is_system_append)
    also have "positions ?P 0 xs = positions ?P 0 pre @ [length pre]"
      using s post by (simp add: xs positions_append positions_none)
    finally show ?thesis .
  qed
  have set: "list_setitem ?h2 ?n (length pre) ?m =
               Inr (?h2[?n := OList (pre @ ?m # post)])"
    by (simp add: list_setitem_def obj_at_def nth_append xs)
  have "obj_at (?h2[?n := OList (pre @ ?m # post)]) ?n = Some (OList (pre @ ?m # post))"
    by (simp add: obj_at_def)
  from delete_positions[OF this, of ?P]
  have del: "delete_indices (?h2[?n := OList (pre @ ?m # post)]) ?n (rev (positions ?P 0 pre)) =
               (Inr (), h @ [OList (filter (\<lambda>x. \<not> ?P x) pre @ ?m # post), system_message prompt])"
    by (simp add: list_update_append)
  show ?thesis
    unfolding swap_system_prompt_def
    by (simp add: it alloc_def construct_message_def idx
                  system_message_def[symmetric] set del
             del: append.simps list_update.simps)
qed

lemma swap_without_system:
  assumes it: "py_iter h messages = Inr xs"
    and msgs: "list_all (is_message h) xs"
    and none: "\<not> list_ex (is_system h) xs"
  shows "swap_system_prompt h messages prompt =
           (Inr (PRef (length h)),
            h @ [OList (PRef (Suc (length h)) # xs), system_message prompt])"
proof -
  let ?h1 = "h @ [OList xs]"
  have idx: "system_indices ?h1 0 xs = Inr []"
  proof -
    have "system_indices ?h1 0 xs = Inr (positions (is_system ?h1) 0 xs)"
      using list_all_is_message_append[OF msgs] by (rule system_indices_positions)
    also have "positions (is_system ?h1) 0 xs = positions (is_system h) 0 xs"
      using msgs by (rule positions_is_system_append)
    also have "\<dots> = []" using none by (rule positions_none)
    finally show ?thesis .
  qed
  show ?thesis
    unfolding swap_system_prompt_def
    by (simp add: it alloc_def construct_message_def idx
                  system_message_def[symmetric] list_insert0_def obj_at_def nth_append
                  list_update_append)
qed

section \<open>Formatting\<close>

text \<open>
  C7. For every string \<open>s\<close>, both versions of \<open>format_messages\<close> return a new list with
  one element, a new dictionary with \<open>role\<close> \<open>user\<close> and content \<open>s\<close>:
  \<open>format_messages(s) == [{"role": "user", "content": s}]\<close>.
\<close>

theorem format_messages_string:
  "utils_format_messages h (PStr s) =
     (Inr (PRef (Suc (length h))),
      h @ [ODict [(''role'', PStr ''user''), (''content'', PStr s)], OList [PRef (length h)]])
   \<and> format_messages h (PStr s) =
     (Inr (PRef (Suc (length h))),
      h @ [ODict [(''role'', PStr ''user''), (''content'', PStr s)], OList [PRef (length h)]])"
  by (simp add: utils_format_messages_def format_messages_def isinstance_str_def
                construct_message_def alloc_def)

text \<open>
  C9. \<open>format_messages\<close> of messages.py accepts the flat list \<open>["role play"]\<close>, whose
  element is a string and no mapping, and returns the list itself: the validation
  \<open>"role" not in message\<close> is substring containment on a string.
\<close>

theorem format_messages_accepts_role_play:
  "\<not> isinstance_Dict [OList [PStr ''role play'']] (PStr ''role play'')
   \<and> format_messages [OList [PStr ''role play'']] (PRef 0) =
       (Inr (PRef 0), [OList [PStr ''role play'']])"
  by (simp add: format_messages_def isinstance_str_def isinstance_List_def isinstance_Dict_def
                obj_at_def py_getitem0_def validate_thread_of_messages_def py_iter_def
                py_contains_def)

text \<open>
  C3. The claim is that the empty list is classified as a flat thread without an
  exception. On the empty list \<open>determine_if_batch\<close> evaluates \<open>messages[0]\<close> and raises
  \<open>IndexError\<close>, and so does \<open>format_messages\<close> of messages.py.
\<close>

theorem empty_list_raises_IndexError:
  "determine_if_batch [OList []] (PRef 0) = Inl IndexError
   \<and> format_messages [OList []] (PRef 0) = (Inl IndexError, [OList []])"
  by (simp add: determine_if_batch_def format_messages_def isinstance_str_def
                isinstance_List_def obj_at_def py_getitem0_def)

lemma utils_format_messages_rejects_other_shapes:
  assumes "\<not> isinstance_str v" and "\<not> is_message h v" and "\<not> isinstance_List h v"
  shows "utils_format_messages h v = (Inl (ValueError ''Invalid messages format''), h)"
  using assms
  by (cases v)
     (auto simp: utils_format_messages_def determine_if_batch_def isinstance_str_def
                 is_message_def)

text \<open>
  C4. The claim is that every input that is no string, no mapping with a \<open>role\<close> key
  and no sequence is rejected with the format error. \<open>format_messages\<close> of
  nanograph/\_utils/messages.py does so (the lemma above). \<open>format_messages\<close> of messages.py
  evaluates \<open>"role" in messages\<close> on such an input, which for the integer 5 raises
  \<open>TypeError\<close> before the \<open>ValueError\<close> of the \<open>else\<close> branch is reached; a
  mapping without a \<open>role\<close> key does reach it.
\<close>

theorem format_messages_integer_TypeError:
  "format_messages [] (PInt 5) = (Inl TypeError, [])
   \<and> format_messages [ODict [(''content'', PStr ''x'')]] (PRef 0) =
       (Inl (ValueError ''messages must be a string, message, or a list of messages''),
        [ODict [(''content'', PStr ''x'')]])"
  by (simp add: format_messages_def isinstance_str_def isinstance_List_def py_contains_def
                obj_at_def)

lemma check_messages_valid:
  "list_all (is_message h) xs \<Longrightarrow> check_messages h xs = Inr ()"
  by (induction xs) (simp_all add: is_message_def)

lemma validate_loop_valid:
  "list_all (is_message h) xs \<Longrightarrow> validate_loop h xs = Inr ()"
  by (induction xs) (simp_all add: is_message_def)

lemma is_thread_list:
  "is_thread h t \<Longrightarrow> \<exists>a xs. t = PRef a \<and> obj_at h a = Some (OList xs) \<and> list_all (is_message h) xs"
  by (auto simp: is_thread_def split: pyval.splits option.splits pyobj.splits)

lemma check_threads_valid:
  "list_all (is_thread h) ts \<Longrightarrow> check_threads h ts = Inr ()"
proof (induction ts)
  case Nil
  then show ?case by simp
next
  case (Cons t ts)
  from Cons.prems have "is_thread h t" by simp
  then obtain a xs where "t = PRef a" "obj_at h a = Some (OList xs)" "list_all (is_message h) xs"
    using is_thread_list by blast
  with Cons show ?case
    by (simp add: py_iter_def check_messages_valid)
qed

lemma validate_thread_valid:
  "is_thread h t \<Longrightarrow> validate_thread_of_messages h t = Inr t"
  using is_thread_list[of h t]
  by (auto simp: validate_thread_of_messages_def py_iter_def validate_loop_valid)

lemma is_thread_append:
  assumes "is_thread h t"
  shows "is_thread (h @ h') t"
proof -
  obtain a xs where t: "t = PRef a" "obj_at h a = Some (OList xs)" "list_all (is_message h) xs"
    using is_thread_list[OF assms] by blast
  then have "obj_at (h @ h') a = Some (OList xs)"
    using obj_at_append_old[OF obj_at_Some_less] by metis
  with t list_all_is_message_append[OF t(3)] show ?thesis
    by (simp add: is_thread_def)
qed

lemma format_threads_valid:
  "list_all (is_thread h) ts \<Longrightarrow>
   format_threads (h @ [OList zs]) (length h) ts = (Inr (), h @ [OList (zs @ ts)])"
proof (induction ts arbitrary: zs)
  case Nil
  then show ?case by simp
next
  case (Cons t ts)
  from Cons.prems have "is_thread (h @ [OList zs]) t"
    by (simp add: is_thread_append)
  then have 1: "validate_thread_of_messages (h @ [OList zs]) t = Inr t"
    by (rule validate_thread_valid)
  have 2: "list_append (h @ [OList zs]) (length h) t = Inr (h @ [OList (zs @ [t])])"
    by (simp add: list_append_def obj_at_def)
  from Cons.prems have "list_all (is_thread h) ts" by simp
  from Cons.IH[OF this, of "zs @ [t]"] show ?case
    by (simp add: 1 2)
qed

lemma is_thread_is_list: "is_thread h t \<Longrightarrow> isinstance_List h t"
  using is_thread_list[of h t] by (auto simp: isinstance_List_def)

lemma is_message_not_list: "is_message h x \<Longrightarrow> \<not> isinstance_List h x"
  using is_message_dict[of h x] by (auto simp: isinstance_List_def)

text \<open>
  On a valid flat thread with at least one message both versions of \<open>format_messages\<close>
  return the list itself and leave the heap as it is.
\<close>

lemma format_messages_flat_identity:
  assumes a: "obj_at h a = Some (OList (x # xs))" and msgs: "list_all (is_message h) (x # xs)"
  shows "utils_format_messages h (PRef a) = (Inr (PRef a), h)"
    and "format_messages h (PRef a) = (Inr (PRef a), h)"
proof -
  have x: "\<not> isinstance_List h x" using msgs by (simp add: is_message_not_list)
  have l: "isinstance_List h (PRef a)" "\<not> isinstance_Dict h (PRef a)"
    using a by (simp_all add: isinstance_List_def isinstance_Dict_def)
  have g: "py_getitem0 h (PRef a) = Inr x" using a by (simp add: py_getitem0_def)
  show "utils_format_messages h (PRef a) = (Inr (PRef a), h)"
    using check_messages_valid[OF msgs]
    by (simp add: utils_format_messages_def determine_if_batch_def isinstance_str_def l g x
                  py_iter_list[OF a] del: check_messages.simps)
  show "format_messages h (PRef a) = (Inr (PRef a), h)"
    using validate_loop_valid[OF msgs]
    by (simp add: format_messages_def isinstance_str_def l g x validate_thread_of_messages_def
                  py_iter_list[OF a] del: validate_loop.simps)
qed

text \<open>
  On a valid batch with at least one thread, \<open>format_messages\<close> of
  nanograph/\_utils/messages.py returns the list itself, and \<open>format_messages\<close> of
  messages.py returns a new list with the same threads in the same order.
\<close>

lemma format_messages_batch_identity:
  assumes b: "obj_at h b = Some (OList (t # ts))" and ths: "list_all (is_thread h) (t # ts)"
  shows "utils_format_messages h (PRef b) = (Inr (PRef b), h)"
    and "format_messages h (PRef b) = (Inr (PRef (length h)), h @ [OList (t # ts)])"
proof -
  have t: "isinstance_List h t" using ths by (simp add: is_thread_is_list)
  have l: "isinstance_List h (PRef b)"
    using b by (simp add: isinstance_List_def)
  have g: "py_getitem0 h (PRef b) = Inr t" using b by (simp add: py_getitem0_def)
  have it: "py_iter (h @ [OList []]) (PRef b) = Inr (t # ts)"
    using b obj_at_append_old[OF obj_at_Some_less[OF b], of "[OList []]"]
    by (simp add: py_iter_def)
  show "utils_format_messages h (PRef b) = (Inr (PRef b), h)"
    using check_threads_valid[OF ths]
    by (simp add: utils_format_messages_def determine_if_batch_def isinstance_str_def l g t
                  py_iter_list[OF b] del: check_threads.simps)
  show "format_messages h (PRef b) = (Inr (PRef (length h)), h @ [OList (t # ts)])"
    using format_threads_valid[OF ths, of "[]"]
    by (simp add: format_messages_def isinstance_str_def l g t alloc_def it
             del: format_threads.simps)
qed

text \<open>
  C5. The claim is that \<open>format_messages\<close> returns every valid flat thread and every
  valid batch as it is. It does so when the list is not empty (the two lemmas above).
  The empty list is a valid flat thread (it has no element without a \<open>role\<close> key), and
  both versions raise \<open>IndexError\<close> on it instead of returning it.
\<close>

theorem format_messages_empty_thread_not_identity:
  "list_all (is_message [OList []]) []
   \<and> utils_format_messages [OList []] (PRef 0) = (Inl IndexError, [OList []])
   \<and> format_messages [OList []] (PRef 0) \<noteq> (Inr (PRef 0), [OList []])"
  by (simp add: utils_format_messages_def determine_if_batch_def format_messages_def
                isinstance_str_def isinstance_List_def obj_at_def py_getitem0_def)

section \<open>Swapping the system prompt\<close>

lemma is_system_fresh:
  "is_system (h @ [ob, system_message prompt]) (PRef (Suc (length h)))"
  by (simp add: is_system_def py_getitem_key_def obj_at_def nth_append system_message_def)

lemma filter_is_system_old:
  assumes "list_all (is_message h) xs"
  shows "filter (is_system (h @ h')) xs = filter (is_system h) xs"
  using assms by (intro filter_cong) (auto simp: list_all_iff is_system_append)

lemma last_system_split:
  assumes "list_ex P xs"
  shows "\<exists>pre s post. xs = pre @ s # post \<and> P s \<and> \<not> list_ex P post"
proof -
  from assms have "\<exists>x\<in>set xs. P x" by (simp add: list_ex_iff)
  from split_list_last_prop[OF this] show ?thesis
    by (auto simp: list_ex_iff)
qed

lemma one_system_after_swap:
  assumes pre: "list_all (is_message h) pre" and post: "list_all (is_message h) post"
    and none: "\<not> list_ex (is_system h) post"
  shows "length (filter (is_system (h @ [ob, system_message prompt]))
           (filter (\<lambda>x. \<not> is_system h x) pre @ PRef (Suc (length h)) # post)) = 1"
proof -
  let ?h' = "h @ [ob, system_message prompt]"
  have "list_all (is_message h) (filter (\<lambda>x. \<not> is_system h x) pre)"
    using pre by (simp add: list_all_iff)
  from filter_is_system_old[OF this]
  have 1: "filter (is_system ?h') (filter (\<lambda>x. \<not> is_system h x) pre) = []"
    by simp
  have "filter (is_system ?h') post = filter (is_system h) post"
    using post by (rule filter_is_system_old)
  also have "\<dots> = []" using none by (simp add: list_ex_iff)
  finally have 2: "filter (is_system ?h') post = []" .
  show ?thesis using 1 2 is_system_fresh[of h ob prompt] by simp
qed

text \<open>
  C1. Let \<open>messages\<close> be a list of messages. If it has a system message, write it as
  \<open>pre @ s # post\<close> with \<open>s\<close> the last one: \<open>swap_system_prompt\<close> returns a new list
  that holds the non-system messages of \<open>pre\<close>, then a new system message with content
  \<open>prompt\<close> in the place of \<open>s\<close>, then \<open>post\<close>. If it has no system message, the
  new list holds the new system message at index 0 and then the messages in their order.
  In both cases the returned list has exactly one system message.
\<close>

theorem swap_system_prompt_replaces_last:
  assumes a: "obj_at h a = Some (OList xs)" and msgs: "list_all (is_message h) xs"
  shows "(\<forall>pre s post. xs = pre @ s # post \<and> is_system h s \<and> \<not> list_ex (is_system h) post \<longrightarrow>
            swap_system_prompt h (PRef a) prompt =
              (Inr (PRef (length h)),
               h @ [OList (filter (\<lambda>x. \<not> is_system h x) pre @ PRef (Suc (length h)) # post),
                    system_message prompt]))
       \<and> (\<not> list_ex (is_system h) xs \<longrightarrow>
            swap_system_prompt h (PRef a) prompt =
              (Inr (PRef (length h)),
               h @ [OList (PRef (Suc (length h)) # xs), system_message prompt]))
       \<and> (\<exists>ys h'. swap_system_prompt h (PRef a) prompt = (Inr (PRef (length h)), h')
            \<and> obj_at h' (length h) = Some (OList ys)
            \<and> length (filter (is_system h') ys) = 1)"
proof (intro conjI allI impI)
  fix pre s post
  assume "xs = pre @ s # post \<and> is_system h s \<and> \<not> list_ex (is_system h) post"
  then show "swap_system_prompt h (PRef a) prompt =
              (Inr (PRef (length h)),
               h @ [OList (filter (\<lambda>x. \<not> is_system h x) pre @ PRef (Suc (length h)) # post),
                    system_message prompt])"
    using swap_with_system[OF py_iter_list[OF a] msgs] by blast
next
  assume "\<not> list_ex (is_system h) xs"
  then show "swap_system_prompt h (PRef a) prompt =
              (Inr (PRef (length h)),
               h @ [OList (PRef (Suc (length h)) # xs), system_message prompt])"
    by (rule swap_without_system[OF py_iter_list[OF a] msgs])
next
  show "\<exists>ys h'. swap_system_prompt h (PRef a) prompt = (Inr (PRef (length h)), h')
            \<and> obj_at h' (length h) = Some (OList ys)
            \<and> length (filter (is_system h') ys) = 1"
  proof (cases "list_ex (is_system h) xs")
    case True
    then obtain pre s post where
      xs: "xs = pre @ s # post" and s: "is_system h s" and post: "\<not> list_ex (is_system h) post"
      using last_system_split by blast
    let ?ys = "filter (\<lambda>x. \<not> is_system h x) pre @ PRef (Suc (length h)) # post"
    let ?h' = "h @ [OList ?ys, system_message prompt]"
    have "swap_system_prompt h (PRef a) prompt = (Inr (PRef (length h)), ?h')"
      using swap_with_system[OF py_iter_list[OF a] msgs xs s post] .
    moreover have "obj_at ?h' (length h) = Some (OList ?ys)"
      by (simp add: obj_at_def)
    moreover have "length (filter (is_system ?h') ?ys) = 1"
      using msgs post by (intro one_system_after_swap) (simp_all add: xs)
    ultimately show ?thesis by blast
  next
    case False
    let ?ys = "PRef (Suc (length h)) # xs"
    let ?h' = "h @ [OList ?ys, system_message prompt]"
    have "swap_system_prompt h (PRef a) prompt = (Inr (PRef (length h)), ?h')"
      using swap_without_system[OF py_iter_list[OF a] msgs False] .
    moreover have "obj_at ?h' (length h) = Some (OList ?ys)"
      by (simp add: obj_at_def)
    moreover have "length (filter (is_system ?h') ?ys) = 1"
      using one_system_after_swap[of h "[]" xs "OList ?ys" prompt] msgs False by simp
    ultimately show ?thesis by blast
  qed
qed


theorem swap_system_prompt_replaces_last_witness:
  "swap_system_prompt
     [ODict [(''role'', PStr ''system''), (''content'', PStr ''one'')],
      ODict [(''role'', PStr ''system''), (''content'', PStr ''two'')],
      ODict [(''role'', PStr ''user''), (''content'', PStr ''hi'')],
      OList [PRef 0, PRef 1, PRef 2]] (PRef 3) ''P'' =
   (Inr (PRef 4),
    [ODict [(''role'', PStr ''system''), (''content'', PStr ''one'')],
     ODict [(''role'', PStr ''system''), (''content'', PStr ''two'')],
     ODict [(''role'', PStr ''user''), (''content'', PStr ''hi'')],
     OList [PRef 0, PRef 1, PRef 2],
     OList [PRef 5, PRef 2],
     system_message ''P''])"
proof -
  let ?h = "[ODict [(''role'', PStr ''system''), (''content'', PStr ''one'')],
      ODict [(''role'', PStr ''system''), (''content'', PStr ''two'')],
      ODict [(''role'', PStr ''user''), (''content'', PStr ''hi'')],
      OList [PRef 0, PRef 1, PRef 2]]"
  have 1: "obj_at ?h 3 = Some (OList [PRef 0, PRef 1, PRef 2])"
    by (simp add: obj_at_def)
  have 2: "list_all (is_message ?h) [PRef 0, PRef 1, PRef 2]"
    by (simp add: is_message_def isinstance_Dict_def py_contains_def obj_at_def)
  have 3: "[PRef 0, PRef 1, PRef 2] = [PRef 0] @ PRef 1 # [PRef 2] \<and> is_system ?h (PRef 1)
           \<and> \<not> list_ex (is_system ?h) [PRef 2]"
    by (simp add: is_system_def py_getitem_key_def obj_at_def)
  from swap_system_prompt_replaces_last[OF 1 2, of "''P''"] 3
  have "swap_system_prompt ?h (PRef 3) ''P'' =
          (Inr (PRef (length ?h)),
           ?h @ [OList (filter (\<lambda>x. \<not> is_system ?h x) [PRef 0] @ PRef (Suc (length ?h)) # [PRef 2]),
                 system_message ''P''])"
    by blast
  then show ?thesis by (simp add: is_system_def py_getitem_key_def obj_at_def)
qed

lemma getitem_key_is_message:
  "py_getitem_key h v ''role'' = Inr r \<Longrightarrow> is_message h v"
  by (auto simp: py_getitem_key_def is_message_def isinstance_Dict_def py_contains_def
           split: pyval.splits option.splits pyobj.splits
           dest!: map_of_SomeD intro: image_eqI[where x = "(''role'', r)"])

lemma system_indices_Inr_messages:
  "system_indices h i xs = Inr idxs \<Longrightarrow> list_all (is_message h) xs"
proof (induction xs arbitrary: i idxs)
  case Nil
  then show ?case by simp
next
  case (Cons x xs)
  from Cons.prems obtain r js where
    r: "py_getitem_key h x ''role'' = Inr r" and js: "system_indices h (Suc i) xs = Inr js"
    by (auto split: sum.splits)
  from getitem_key_is_message[OF r] Cons.IH[OF js] show ?case by simp
qed

lemma is_message_drop_list:
  "is_message (h @ [OList ys]) v \<Longrightarrow> is_message h v"
  by (auto simp: is_message_def isinstance_Dict_def py_contains_def obj_at_def nth_append
           split: pyval.splits option.splits pyobj.splits if_splits)

lemma swap_iter_error:
  "py_iter h messages = Inl e \<Longrightarrow> swap_system_prompt h messages prompt = (Inl e, h)"
  by (simp add: swap_system_prompt_def)

lemma swap_indices_error:
  "py_iter h messages = Inr xs \<Longrightarrow> system_indices (h @ [OList xs]) 0 xs = Inl e \<Longrightarrow>
   swap_system_prompt h messages prompt = (Inl e, h @ [OList xs])"
  by (simp add: swap_system_prompt_def alloc_def)

lemma filter_not_system_old:
  assumes "list_all (is_message h) xs"
  shows "filter (\<lambda>x. \<not> is_system (h @ h') x) xs = filter (\<lambda>x. \<not> is_system h x) xs"
  using assms by (intro filter_cong) (auto simp: list_all_iff is_system_append)

lemma non_system_after_swap:
  assumes pre: "list_all (is_message h) pre" and post: "list_all (is_message h) post"
    and s: "is_system h s"
  shows "filter (\<lambda>x. \<not> is_system (h @ [ob, system_message prompt]) x)
           (filter (\<lambda>x. \<not> is_system h x) pre @ PRef (Suc (length h)) # post) =
         filter (\<lambda>x. \<not> is_system h x) (pre @ s # post)"
proof -
  let ?h' = "h @ [ob, system_message prompt]"
  have "list_all (is_message h) (filter (\<lambda>x. \<not> is_system h x) pre)"
    using pre by (simp add: list_all_iff)
  from filter_not_system_old[OF this]
  have 1: "filter (\<lambda>x. \<not> is_system ?h' x) (filter (\<lambda>x. \<not> is_system h x) pre) =
           filter (\<lambda>x. \<not> is_system h x) pre"
    by simp
  have 2: "filter (\<lambda>x. \<not> is_system ?h' x) post = filter (\<lambda>x. \<not> is_system h x) post"
    using post by (rule filter_not_system_old)
  show ?thesis using 1 2 s is_system_fresh[of h ob prompt] by simp
qed

lemma swap_cases:
  obtains (iter_error) e where "py_iter h messages = Inl e"
      "swap_system_prompt h messages prompt = (Inl e, h)"
  | (role_error) xs e where "py_iter h messages = Inr xs"
      "swap_system_prompt h messages prompt = (Inl e, h @ [OList xs])"
  | (replaced) pre s post where "py_iter h messages = Inr (pre @ s # post)"
      "list_all (is_message h) (pre @ s # post)" "is_system h s"
      "\<not> list_ex (is_system h) post"
      "swap_system_prompt h messages prompt =
         (Inr (PRef (length h)),
          h @ [OList (filter (\<lambda>x. \<not> is_system h x) pre @ PRef (Suc (length h)) # post),
               system_message prompt])"
  | (inserted) xs where "py_iter h messages = Inr xs"
      "list_all (is_message h) xs" "\<not> list_ex (is_system h) xs"
      "swap_system_prompt h messages prompt =
         (Inr (PRef (length h)),
          h @ [OList (PRef (Suc (length h)) # xs), system_message prompt])"
proof (cases "py_iter h messages")
  case (Inl e)
  with swap_iter_error[OF Inl] iter_error show ?thesis by blast
next
  case (Inr xs)
  note it = this
  show ?thesis
  proof (cases "system_indices (h @ [OList xs]) 0 xs")
    case (Inl e)
    from swap_indices_error[OF it Inl] it role_error show ?thesis by blast
  next
    case (Inr idxs)
    have "list_all (is_message (h @ [OList xs])) xs"
      using Inr by (rule system_indices_Inr_messages)
    then have msgs: "list_all (is_message h) xs"
      by (auto simp: list_all_iff dest: is_message_drop_list)
    show ?thesis
    proof (cases "list_ex (is_system h) xs")
      case True
      then obtain pre s post where
        xs: "xs = pre @ s # post" and s: "is_system h s"
        and post: "\<not> list_ex (is_system h) post"
        using last_system_split by blast
      from swap_with_system[OF it msgs xs s post] it msgs xs s post replaced
      show ?thesis by blast
    next
      case False
      from swap_without_system[OF it msgs False] it msgs False inserted
      show ?thesis by blast
    qed
  qed
qed

text \<open>
  C10. \<open>swap_system_prompt\<close> changes no object that existed before the call, whatever its
  input and whether or not it raises. It returns on every valid thread. When it
  returns, the result is a list at a new address, and its non-system messages are the
  non-system messages of the input, the same objects in the same order.
\<close>

theorem swap_system_prompt_frame:
  "take (length h) (snd (swap_system_prompt h messages prompt)) = h
   \<and> (is_thread h messages \<longrightarrow> (\<exists>v. fst (swap_system_prompt h messages prompt) = Inr v))
   \<and> (\<forall>v. fst (swap_system_prompt h messages prompt) = Inr v \<longrightarrow>
          v = PRef (length h) \<and> obj_at h (length h) = None
          \<and> (\<exists>xs ys. py_iter h messages = Inr xs
                \<and> obj_at (snd (swap_system_prompt h messages prompt)) (length h) =
                    Some (OList ys)
                \<and> filter (\<lambda>x. \<not> is_system (snd (swap_system_prompt h messages prompt)) x) ys =
                    filter (\<lambda>x. \<not> is_system h x) xs))"
proof -
  have returns: "\<exists>v. fst (swap_system_prompt h messages prompt) = Inr v"
    if thread: "is_thread h messages"
  proof -
    obtain a xs where m: "messages = PRef a" and a: "obj_at h a = Some (OList xs)"
        and msgs: "list_all (is_message h) xs"
      using is_thread_list[OF thread] by blast
    show ?thesis
    proof (cases "list_ex (is_system h) xs")
      case True
      then obtain pre s post where "xs = pre @ s # post" "is_system h s"
          "\<not> list_ex (is_system h) post"
        using last_system_split by blast
      from swap_with_system[OF py_iter_list[OF a] msgs this, of prompt] show ?thesis
        by (simp add: m)
    next
      case False
      from swap_without_system[OF py_iter_list[OF a] msgs False, of prompt] show ?thesis
        by (simp add: m)
    qed
  qed
  have frame: "take (length h) (snd (swap_system_prompt h messages prompt)) = h
   \<and> (\<forall>v. fst (swap_system_prompt h messages prompt) = Inr v \<longrightarrow>
          v = PRef (length h) \<and> obj_at h (length h) = None
          \<and> (\<exists>xs ys. py_iter h messages = Inr xs
                \<and> obj_at (snd (swap_system_prompt h messages prompt)) (length h) =
                    Some (OList ys)
                \<and> filter (\<lambda>x. \<not> is_system (snd (swap_system_prompt h messages prompt)) x) ys =
                    filter (\<lambda>x. \<not> is_system h x) xs))"
  proof (cases rule: swap_cases[of h messages prompt])
    case (iter_error e)
    then show ?thesis by simp
  next
    case (role_error xs e)
    then show ?thesis by simp
  next
    case (replaced pre s post)
    have "filter (\<lambda>x. \<not> is_system (h @ [OList (filter (\<lambda>x. \<not> is_system h x) pre @ PRef (Suc (length h)) # post), system_message prompt]) x)
             (filter (\<lambda>x. \<not> is_system h x) pre @ PRef (Suc (length h)) # post) =
           filter (\<lambda>x. \<not> is_system h x) (pre @ s # post)"
      using replaced(2,3) by (intro non_system_after_swap) simp_all
    with replaced(1,5) show ?thesis
      by (simp add: obj_at_def)
  next
    case (inserted xs)
    have "filter (\<lambda>x. \<not> is_system (h @ [OList (PRef (Suc (length h)) # xs), system_message prompt]) x)
            (PRef (Suc (length h)) # xs) = filter (\<lambda>x. \<not> is_system h x) xs"
      using filter_not_system_old[OF inserted(2)] is_system_fresh[of h _ prompt] by simp
    with inserted(1,4) show ?thesis
      by (simp add: obj_at_def)
  qed
  from returns frame show ?thesis by blast
qed

theorem swap_system_prompt_frame_witness:
  "fst (swap_system_prompt
          [ODict [(''role'', PStr ''system''), (''content'', PStr ''base'')],
           ODict [(''role'', PStr ''user''), (''content'', PStr ''hi'')],
           OList [PRef 0, PRef 1]] (PRef 2) ''P'') = Inr (PRef 3)
   \<and> take 3 (snd (swap_system_prompt
          [ODict [(''role'', PStr ''system''), (''content'', PStr ''base'')],
           ODict [(''role'', PStr ''user''), (''content'', PStr ''hi'')],
           OList [PRef 0, PRef 1]] (PRef 2) ''P'')) =
         [ODict [(''role'', PStr ''system''), (''content'', PStr ''base'')],
          ODict [(''role'', PStr ''user''), (''content'', PStr ''hi'')],
          OList [PRef 0, PRef 1]]
   \<and> (\<exists>ys. obj_at (snd (swap_system_prompt
          [ODict [(''role'', PStr ''system''), (''content'', PStr ''base'')],
           ODict [(''role'', PStr ''user''), (''content'', PStr ''hi'')],
           OList [PRef 0, PRef 1]] (PRef 2) ''P'')) 3 = Some (OList ys)
        \<and> filter (\<lambda>x. \<not> is_system (snd (swap_system_prompt
          [ODict [(''role'', PStr ''system''), (''content'', PStr ''base'')],
           ODict [(''role'', PStr ''user''), (''content'', PStr ''hi'')],
           OList [PRef 0, PRef 1]] (PRef 2) ''P'')) x) ys = [PRef 1])"
proof -
  let ?h = "[ODict [(''role'', PStr ''system''), (''content'', PStr ''base'')],
           ODict [(''role'', PStr ''user''), (''content'', PStr ''hi'')],
           OList [PRef 0, PRef 1]]"
  let ?h' = "snd (swap_system_prompt ?h (PRef 2) ''P'')"
  have thread: "is_thread ?h (PRef 2)"
    by (simp add: is_thread_def is_message_def isinstance_Dict_def py_contains_def obj_at_def)
  have it: "py_iter ?h (PRef 2) = Inr [PRef 0, PRef 1]"
    by (simp add: py_iter_def obj_at_def)
  have sys: "filter (\<lambda>x. \<not> is_system ?h x) [PRef 0, PRef 1] = [PRef 1]"
    by (simp add: is_system_def py_getitem_key_def obj_at_def)
  have len: "length ?h = 3" by simp
  note frame = swap_system_prompt_frame[of ?h "PRef 2" "''P''"]
  from frame have "take (length ?h) ?h' = ?h"
    by (rule conjunct1)
  then have fr: "take 3 ?h' = ?h"
    unfolding len .
  from frame thread obtain v where "fst (swap_system_prompt ?h (PRef 2) ''P'') = Inr v"
    by blast
  with frame have "fst (swap_system_prompt ?h (PRef 2) ''P'') = Inr (PRef (length ?h))"
    by blast
  then have ev: "fst (swap_system_prompt ?h (PRef 2) ''P'') = Inr (PRef 3)"
    unfolding len .
  from frame ev have "\<exists>xs ys. py_iter ?h (PRef 2) = Inr xs
      \<and> obj_at ?h' (length ?h) = Some (OList ys)
      \<and> filter (\<lambda>x. \<not> is_system ?h' x) ys = filter (\<lambda>x. \<not> is_system ?h x) xs"
    by blast
  then obtain ys where "obj_at ?h' (length ?h) = Some (OList ys)"
      and "filter (\<lambda>x. \<not> is_system ?h' x) ys = filter (\<lambda>x. \<not> is_system ?h x) [PRef 0, PRef 1]"
    unfolding it by blast
  then have "\<exists>ys. obj_at ?h' 3 = Some (OList ys)
      \<and> filter (\<lambda>x. \<not> is_system ?h' x) ys = [PRef 1]"
    unfolding len sys by blast
  with ev fr show ?thesis by (intro conjI)
qed

lemma is_message_fresh:
  "is_message (h @ [ob, system_message prompt]) (PRef (Suc (length h)))"
  by (simp add: is_message_def isinstance_Dict_def py_contains_def obj_at_def nth_append
                system_message_def)

lemma not_system_old:
  assumes "list_all (is_message h) xs" and "\<not> list_ex (is_system h) xs"
  shows "\<not> list_ex (is_system (h @ h')) xs"
  using assms by (auto simp: list_all_iff list_ex_iff is_system_append)

lemma py_equal_refl: "py_equal h v v"
  by (simp add: py_equal_def)

lemma list_all2_py_equal_refl: "list_all2 (py_equal h) xs xs"
  by (simp add: list_all2_same py_equal_refl)

lemma swap_again:
  assumes pre: "list_all (is_message h) pre" and post: "list_all (is_message h) post"
    and npre: "\<not> list_ex (is_system h) pre" and npost: "\<not> list_ex (is_system h) post"
    and h1: "h1 = h @ [OList (pre @ PRef (Suc (length h)) # post), system_message prompt]"
  shows "swap_system_prompt h1 (PRef (length h)) prompt =
           (Inr (PRef (length h1)),
            h1 @ [OList (pre @ PRef (Suc (length h1)) # post), system_message prompt])"
proof -
  let ?ys = "pre @ PRef (Suc (length h)) # post"
  have it: "py_iter h1 (PRef (length h)) = Inr ?ys"
    by (simp add: h1 py_iter_def obj_at_def)
  have msgs: "list_all (is_message h1) ?ys"
    using list_all_is_message_append[OF pre] list_all_is_message_append[OF post]
      is_message_fresh[of h _ prompt]
    by (simp add: h1)
  have s: "is_system h1 (PRef (Suc (length h)))"
    unfolding h1 by (rule is_system_fresh)
  have npost1: "\<not> list_ex (is_system h1) post"
    unfolding h1 using post npost by (rule not_system_old)
  have "\<not> list_ex (is_system h1) pre"
    unfolding h1 using pre npre by (rule not_system_old)
  then have keep: "filter (\<lambda>x. \<not> is_system h1 x) pre = pre"
    by (simp add: list_ex_iff)
  from swap_with_system[OF it msgs refl s npost1, of prompt] keep
  show ?thesis by simp
qed

lemma swap_twice_equal:
  assumes pre: "list_all (is_message h) pre" and post: "list_all (is_message h) post"
    and npre: "\<not> list_ex (is_system h) pre" and npost: "\<not> list_ex (is_system h) post"
    and first: "swap_system_prompt h messages prompt =
                  (Inr (PRef (length h)),
                   h @ [OList (pre @ PRef (Suc (length h)) # post), system_message prompt])"
  shows "\<exists>l1 h1 l2 h2 ys1 ys2.
           swap_system_prompt h messages prompt = (Inr (PRef l1), h1)
         \<and> swap_system_prompt h1 (PRef l1) prompt = (Inr (PRef l2), h2)
         \<and> obj_at h2 l1 = Some (OList ys1) \<and> obj_at h2 l2 = Some (OList ys2)
         \<and> list_all2 (py_equal h2) ys2 ys1"
proof -
  let ?n = "length h"
  let ?ys1 = "pre @ PRef (Suc ?n) # post"
  let ?h1 = "h @ [OList ?ys1, system_message prompt]"
  let ?ys2 = "pre @ PRef (Suc (length ?h1)) # post"
  let ?h2 = "?h1 @ [OList ?ys2, system_message prompt]"
  have second: "swap_system_prompt ?h1 (PRef ?n) prompt = (Inr (PRef (length ?h1)), ?h2)"
    using swap_again[OF pre post npre npost refl] .
  have o1: "obj_at ?h2 ?n = Some (OList ?ys1)"
    by (simp add: obj_at_def nth_append)
  have o2: "obj_at ?h2 (length ?h1) = Some (OList ?ys2)"
    by (simp add: obj_at_def nth_append)
  have "py_equal ?h2 (PRef (Suc (length ?h1))) (PRef (Suc ?n))"
    by (simp add: py_equal_def obj_at_def nth_append system_message_def)
  then have eq: "list_all2 (py_equal ?h2) ?ys2 ?ys1"
    by (intro list_all2_appendI list_all2_py_equal_refl) (simp add: list_all2_py_equal_refl)
  from first second o1 o2 eq show ?thesis by blast
qed

text \<open>
  C6. For a list of messages, \<open>swap_system_prompt\<close> applied to its own result with the
  same prompt returns a list that is equal, element by element, to the first result.
\<close>

theorem swap_system_prompt_idempotent:
  assumes a: "obj_at h a = Some (OList xs)" and msgs: "list_all (is_message h) xs"
  shows "\<exists>l1 h1 l2 h2 ys1 ys2.
           swap_system_prompt h (PRef a) prompt = (Inr (PRef l1), h1)
         \<and> swap_system_prompt h1 (PRef l1) prompt = (Inr (PRef l2), h2)
         \<and> obj_at h2 l1 = Some (OList ys1) \<and> obj_at h2 l2 = Some (OList ys2)
         \<and> list_all2 (py_equal h2) ys2 ys1"
proof (cases "list_ex (is_system h) xs")
  case True
  then obtain pre s post where
    xs: "xs = pre @ s # post" and s: "is_system h s" and post: "\<not> list_ex (is_system h) post"
    using last_system_split by blast
  let ?pre = "filter (\<lambda>x. \<not> is_system h x) pre"
  have 1: "list_all (is_message h) ?pre" using msgs by (simp add: xs list_all_iff)
  have 2: "list_all (is_message h) post" using msgs by (simp add: xs)
  have 3: "\<not> list_ex (is_system h) ?pre" by (simp add: list_ex_iff)
  from swap_with_system[OF py_iter_list[OF a] msgs xs s post]
  show ?thesis by (rule swap_twice_equal[OF 1 2 3 post])
next
  case False
  have first: "swap_system_prompt h (PRef a) prompt =
      (Inr (PRef (length h)), h @ [OList ([] @ PRef (Suc (length h)) # xs), system_message prompt])"
    using swap_without_system[OF py_iter_list[OF a] msgs False] by simp
  show ?thesis
    by (rule swap_twice_equal[OF _ msgs _ False first]) simp_all
qed

theorem swap_system_prompt_idempotent_witness:
  "\<exists>l1 h1 l2 h2 ys1 ys2.
     swap_system_prompt
       [ODict [(''role'', PStr ''system''), (''content'', PStr ''base'')],
        ODict [(''role'', PStr ''user''), (''content'', PStr ''hi'')],
        OList [PRef 1, PRef 0]] (PRef 2) ''P'' = (Inr (PRef l1), h1)
   \<and> swap_system_prompt h1 (PRef l1) ''P'' = (Inr (PRef l2), h2)
   \<and> obj_at h2 l1 = Some (OList ys1) \<and> obj_at h2 l2 = Some (OList ys2)
   \<and> list_all2 (py_equal h2) ys2 ys1"
proof -
  let ?h = "[ODict [(''role'', PStr ''system''), (''content'', PStr ''base'')],
        ODict [(''role'', PStr ''user''), (''content'', PStr ''hi'')],
        OList [PRef 1, PRef 0]]"
  have 1: "obj_at ?h 2 = Some (OList [PRef 1, PRef 0])"
    by (simp add: obj_at_def)
  have 2: "list_all (is_message ?h) [PRef 1, PRef 0]"
    by (simp add: is_message_def isinstance_Dict_def py_contains_def obj_at_def)
  from swap_system_prompt_idempotent[OF 1 2, of "''P''"] show ?thesis .
qed

section \<open>Adding context\<close>


lemma py_iadd_str_effect:
  assumes "py_iadd_str h v s = (Inr new, h2)"
  shows "h2 = h \<or> (\<exists>b ys. obj_at h b = Some (OList ys)
                      \<and> h2 = h[b := OList (ys @ map (\<lambda>c. PStr [c]) s)])"
  using assms
  by (auto simp: py_iadd_str_def split: pyval.splits option.splits pyobj.splits)

lemma py_iadd_str_keeps_dict:
  assumes "py_iadd_str h v s = (Inr new, h2)" and "obj_at h m = Some (ODict d)"
  shows "obj_at h2 m = Some (ODict d)"
proof -
  from py_iadd_str_effect[OF assms(1)] show ?thesis
  proof
    assume "h2 = h"
    with assms(2) show ?thesis by simp
  next
    assume "\<exists>b ys. obj_at h b = Some (OList ys)
              \<and> h2 = h[b := OList (ys @ map (\<lambda>c. PStr [c]) s)]"
    then obtain b ys where b: "obj_at h b = Some (OList ys)"
        and h2: "h2 = h[b := OList (ys @ map (\<lambda>c. PStr [c]) s)]"
      by blast
    from b assms(2) have "b \<noteq> m" by auto
    with assms(2) show ?thesis by (simp add: h2 obj_at_update_other)
  qed
qed

text \<open>
  What a call of \<open>_add_context_to_sequence\<close> that returns has done to an object that
  existed before: nothing, or it has extended a list by the characters of the appended
  text, or it has set the \<open>content\<close> key that a dictionary already had.
\<close>

lemma add_context_to_sequence_effect:
  assumes ok: "add_context_to_sequence h seq c = (Inr r, h')" and a: "a < length h"
  shows "obj_at h' a = obj_at h a
       \<or> (\<exists>ys. obj_at h a = Some (OList ys)
             \<and> obj_at h' a =
                 Some (OList (ys @ map (\<lambda>c. PStr [c]) ([CHR 0x0A, CHR 0x0A] @ c))))
       \<or> (\<exists>d v. obj_at h a = Some (ODict d) \<and> ''content'' \<in> fst ` set d
             \<and> obj_at h' a = Some (ODict (AList.update ''content'' v d)))"
proof (cases "py_iter h seq")
  case (Inl e1)
  with ok show ?thesis by (simp add: add_context_to_sequence_def)
next
  case (Inr xs)
  note it = this
  let ?h1 = "h @ [OList xs]"
  have a1: "obj_at ?h1 a = obj_at h a" using a by (rule obj_at_append_old)
  show ?thesis
  proof (cases "find_system_idx ?h1 0 None xs")
    case (Inl e1)
    with ok it show ?thesis by (auto simp: add_context_to_sequence_def alloc_def)
  next
    case (Inr found)
    note idx = this
    show ?thesis
    proof (cases found)
      case None
      with ok it idx have "h' = (?h1 @ [system_message c])[length h := OList (PRef (Suc (length h)) # xs)]"
        by (auto simp: add_context_to_sequence_def alloc_def construct_message_def
                       list_insert0_def obj_at_def nth_append system_message_def)
      with a show ?thesis by (simp add: obj_at_def nth_append)
    next
      case (Some i)
      show ?thesis
      proof (cases "list_getitem ?h1 (length h) i")
        case (Inl e1)
        with ok it idx Some show ?thesis
          by (auto simp: add_context_to_sequence_def alloc_def)
      next
        case (Inr target)
        note get = this
        show ?thesis
        proof (cases "py_getitem_key ?h1 target ''content''")
          case (Inl e1)
          with ok it idx Some get show ?thesis
            by (auto simp: add_context_to_sequence_def alloc_def)
        next
          case (Inr old)
          note old = this
          then obtain m d where target: "target = PRef m"
              and m: "obj_at ?h1 m = Some (ODict d)" and key: "map_of d ''content'' = Some old"
            using getitem_key_Inr by blast
          have content: "''content'' \<in> fst ` set d"
            using key by (metis domI dom_map_of_conv_image_fst)
          obtain r1 h2 where add: "py_iadd_str ?h1 old ([CHR 0x0A, CHR 0x0A] @ c) = (r1, h2)"
            by (cases "py_iadd_str ?h1 old ([CHR 0x0A, CHR 0x0A] @ c)")
          show ?thesis
          proof (cases r1)
            case (Inl e1)
            with ok it idx Some get old add show ?thesis
              by (auto simp: add_context_to_sequence_def alloc_def)
          next
            case (Inr new)
            note add = add[unfolded Inr]
            have m2: "obj_at h2 m = Some (ODict d)"
              using py_iadd_str_keeps_dict[OF add m] .
            then have put: "dict_setitem h2 target ''content'' new =
                Inr (h2[m := ODict (AList.update ''content'' new d)])"
              by (simp add: dict_setitem_def target)
            from ok it idx Some get old add put
            have h': "h' = h2[m := ODict (AList.update ''content'' new d)]"
              by (auto simp: add_context_to_sequence_def alloc_def)
            have mlt: "m < length h2" using m2 by (rule obj_at_Some_less)
            show ?thesis
            proof (cases "a = m")
              case True
              with m a1 have "obj_at h a = Some (ODict d)" by simp
              moreover have "obj_at h' a = Some (ODict (AList.update ''content'' new d))"
                using True mlt by (simp add: h' obj_at_update_same)
              ultimately show ?thesis using content by blast
            next
              case False
              then have eq: "obj_at h' a = obj_at h2 a"
                by (simp add: h' obj_at_update_other)
              from py_iadd_str_effect[OF add] show ?thesis
              proof
                assume "h2 = ?h1"
                with eq a1 show ?thesis by simp
              next
                assume "\<exists>b ys. obj_at ?h1 b = Some (OList ys)
                    \<and> h2 = ?h1[b := OList (ys @ map (\<lambda>c. PStr [c]) ([CHR 0x0A, CHR 0x0A] @ c))]"
                then obtain b ys where b: "obj_at ?h1 b = Some (OList ys)"
                    and h2: "h2 = ?h1[b := OList (ys @ map (\<lambda>c. PStr [c]) ([CHR 0x0A, CHR 0x0A] @ c))]"
                  by blast
                show ?thesis
                proof (cases "a = b")
                  case True
                  have "b < length ?h1" using b by (rule obj_at_Some_less)
                  then have "obj_at h2 a =
                      Some (OList (ys @ map (\<lambda>c. PStr [c]) ([CHR 0x0A, CHR 0x0A] @ c)))"
                    using True by (simp add: h2 obj_at_update_same)
                  with eq b a1 True show ?thesis by auto
                next
                  case False
                  then have "obj_at h2 a = obj_at ?h1 a"
                    by (simp add: h2 obj_at_update_other)
                  with eq a1 show ?thesis by simp
                qed
              qed
            qed
          qed
        qed
      qed
    qed
  qed
qed

lemma py_iter_after_step:
  assumes it: "py_iter h messages = Inr xs"
    and ok: "add_context_to_sequence h seq c = (Inr r, h')"
  shows "\<exists>zs. py_iter h' messages = Inr (xs @ zs) \<and> list_all str_item zs"
proof (cases messages)
  case PNone
  with it show ?thesis by (simp add: py_iter_def)
next
  case (PInt n)
  with it show ?thesis by (simp add: py_iter_def)
next
  case (PStr s)
  with it have "py_iter h' messages = Inr (xs @ [])" by (simp add: py_iter_def)
  moreover have "list_all str_item []" by simp
  ultimately show ?thesis by blast
next
  case (PRef a)
  with it obtain ob where ob: "obj_at h a = Some ob"
    by (auto simp: py_iter_def split: option.splits)
  then have a: "a < length h" by (rule obj_at_Some_less)
  from add_context_to_sequence_effect[OF ok a]
  consider (same) "obj_at h' a = obj_at h a"
    | (list) ys where "obj_at h a = Some (OList ys)"
        "obj_at h' a = Some (OList (ys @ map (\<lambda>c. PStr [c]) ([CHR 0x0A, CHR 0x0A] @ c)))"
    | (dict) d v where "obj_at h a = Some (ODict d)" "''content'' \<in> fst ` set d"
        "obj_at h' a = Some (ODict (AList.update ''content'' v d))"
    by blast
  then show ?thesis
  proof cases
    case same
    with it PRef have "py_iter h' messages = Inr (xs @ [])" by (simp add: py_iter_def)
    moreover have "list_all str_item []" by simp
  ultimately show ?thesis by blast
  next
    case (list ys)
    with it PRef have "py_iter h' messages =
        Inr (xs @ map (\<lambda>c. PStr [c]) ([CHR 0x0A, CHR 0x0A] @ c))"
      by (simp add: py_iter_def)
    moreover have "list_all str_item (map (\<lambda>c. PStr [c]) ([CHR 0x0A, CHR 0x0A] @ c))"
      by (simp add: list_all_iff str_item_def)
    ultimately show ?thesis by blast
  next
    case (dict d v)
    have keys: "map (\<lambda>kv. PStr (fst kv)) al = map PStr (map fst al)"
      for al :: "(string \<times> pyval) list"
      by simp
    have "map fst (AList.update ''content'' v d) = map fst d"
      using dict(2) by (simp add: update_keys)
    then have "map (\<lambda>kv. PStr (fst kv)) (AList.update ''content'' v d) =
        map (\<lambda>kv. PStr (fst kv)) d"
      unfolding keys by simp
    with it PRef dict have "py_iter h' messages = Inr (xs @ [])" by (simp add: py_iter_def)
    moreover have "list_all str_item []" by simp
  ultimately show ?thesis by blast
  qed
qed

lemma str_item_raises:
  assumes "str_item x"
  shows "add_context_to_sequence h x c = (Inl TypeError, h @ [OList (case x of PStr s \<Rightarrow> map (\<lambda>c. PStr [c]) s | _ \<Rightarrow> [])])"
proof -
  from assms obtain ch s where "x = PStr (ch # s)"
    by (cases x) (auto simp: str_item_def neq_Nil_conv)
  then show ?thesis
    by (simp add: add_context_to_sequence_def py_iter_def alloc_def py_getitem_key_def)
qed

lemma remaining_decreases:
  assumes nxt: "next_item h messages i = Some seq"
    and ok: "add_context_to_sequence h seq c = (Inr r, h')"
  shows "remaining h' messages (Suc i) < remaining h messages i"
proof -
  from nxt obtain xs where it: "py_iter h messages = Inr xs" and i: "i < length xs"
      and seq: "seq = xs ! i"
    by (auto simp: next_item_def split: sum.splits if_splits)
  obtain zs where it': "py_iter h' messages = Inr (xs @ zs)" and zs: "list_all str_item zs"
    using py_iter_after_step[OF it ok] by blast
  have nostr: "\<not> str_item (xs ! i)"
    using ok str_item_raises[of seq h c] seq by auto
  have "takeWhile (\<lambda>x. \<not> str_item x) zs = []"
    using zs by (cases zs) simp_all
  then have tw: "takeWhile (\<lambda>x. \<not> str_item x) (ys @ zs) =
      takeWhile (\<lambda>x. \<not> str_item x) ys" for ys
    by (induction ys) simp_all
  have "drop (Suc i) (xs @ zs) = drop (Suc i) xs @ zs" using i by simp
  then have 1: "remaining h' messages (Suc i) =
      length (takeWhile (\<lambda>x. \<not> str_item x) (drop (Suc i) xs))"
    by (simp add: remaining_def it' tw)
  have "drop i xs = xs ! i # drop (Suc i) xs" using i by (simp add: Cons_nth_drop_Suc)
  then have 2: "remaining h messages i =
      Suc (length (takeWhile (\<lambda>x. \<not> str_item x) (drop (Suc i) xs)))"
    using nostr by (simp add: remaining_def it)
  from 1 2 show ?thesis by simp
qed

termination add_context_to_batch
proof (relation "measure (\<lambda>(h, messages, i, c). remaining h messages i)")
  show "wf (measure (\<lambda>(h, messages, i, c). remaining h messages i))" by simp
next
  fix h messages i "context" seq x r h' 
  show "next_item h messages i = Some seq \<Longrightarrow>
       (x, h') = add_context_to_sequence h seq context \<Longrightarrow>
       x = Inr r \<Longrightarrow>
       ((h', messages, Suc i, context), h, messages, i, context)
       \<in> measure (\<lambda>(h, messages, i, c). remaining h messages i)"
    using remaining_decreases[of h messages i seq "context" r h'] by simp
qed

declare add_context_to_batch.simps [simp del]

lemma find_system_idx_append:
  "find_system_idx h i acc (xs @ ys) =
     (case find_system_idx h i acc xs of
        Inl e \<Rightarrow> Inl e
      | Inr acc' \<Rightarrow> find_system_idx h (i + length xs) acc' ys)"
  by (induction xs arbitrary: i acc) (auto split: sum.splits)

lemma find_system_idx_messages:
  "list_all (is_message h) xs \<Longrightarrow> \<exists>acc'. find_system_idx h i acc xs = Inr acc'"
proof (induction xs arbitrary: i acc)
  case Nil
  then show ?case by simp
next
  case (Cons x xs)
  from Cons.prems have "is_message h x" by simp
  then obtain r where r: "py_getitem_key h x ''role'' = Inr r"
    using is_message_role by blast
  from Cons.prems have "list_all (is_message h) xs" by simp
  from Cons.IH[OF this] r show ?case by simp
qed

lemma find_system_idx_none:
  "list_all (is_message h) xs \<Longrightarrow> \<not> list_ex (is_system h) xs \<Longrightarrow>
   find_system_idx h i acc xs = Inr acc"
proof (induction xs arbitrary: i)
  case Nil
  then show ?case by simp
next
  case (Cons x xs)
  from Cons.prems have "is_message h x" by simp
  then obtain r where r: "py_getitem_key h x ''role'' = Inr r"
    using is_message_role by blast
  from Cons.prems have "\<not> is_system h x" by simp
  with r have "r \<noteq> PStr ''system''" by (simp add: is_system_def)
  with Cons r show ?case by simp
qed

lemma find_system_idx_last:
  assumes pre: "list_all (is_message h) pre" and post: "list_all (is_message h) post"
    and s: "is_system h s" and none: "\<not> list_ex (is_system h) post"
  shows "find_system_idx h i acc (pre @ s # post) = Inr (Some (i + length pre))"
proof -
  obtain acc' where 1: "find_system_idx h i acc pre = Inr acc'"
    using find_system_idx_messages[OF pre] by blast
  have "find_system_idx h (i + length pre) acc' (s # post) =
          find_system_idx h (Suc (i + length pre)) (Some (i + length pre)) post"
    using s by (simp add: is_system_def)
  also have "\<dots> = Inr (Some (i + length pre))"
    using post none by (rule find_system_idx_none)
  finally show ?thesis by (simp add: find_system_idx_append 1)
qed

lemma add_context_to_sequence_append:
  assumes it: "py_iter h msg_sequence = Inr xs"
    and msgs: "list_all (is_message h) xs"
    and xs: "xs = pre @ PRef m # post"
    and s: "is_system h (PRef m)"
    and none: "\<not> list_ex (is_system h) post"
    and d: "obj_at h m = Some (ODict d)"
    and c: "map_of d ''content'' = Some (PStr c)"
  shows "add_context_to_sequence h msg_sequence context =
           (Inr (PRef (length h)),
            h[m := ODict (AList.update ''content'' (PStr (c @ [CHR 0x0A, CHR 0x0A] @ context)) d)]
              @ [OList xs])"
proof -
  let ?n = "length h"
  let ?h1 = "h @ [OList xs]"
  have m: "m < length h" using d by (rule obj_at_Some_less)
  have pre1: "list_all (is_message ?h1) pre" and post1: "list_all (is_message ?h1) post"
    using list_all_is_message_append[OF msgs] by (simp_all add: xs)
  have s1: "is_system ?h1 (PRef m)"
    using msgs s by (simp add: xs is_system_append)
  have none1: "\<not> list_ex (is_system ?h1) post"
    using msgs none by (intro not_system_old) (simp_all add: xs)
  have "find_system_idx ?h1 0 None (pre @ PRef m # post) = Inr (Some (0 + length pre))"
    using pre1 post1 s1 none1 by (rule find_system_idx_last)
  then have idx: "find_system_idx ?h1 0 None xs = Inr (Some (length pre))"
    by (simp add: xs[symmetric])
  have get: "list_getitem ?h1 ?n (length pre) = Inr (PRef m)"
    by (simp add: list_getitem_def obj_at_def xs)
  have d1: "obj_at ?h1 m = Some (ODict d)"
    using d m by (simp add: obj_at_append_old)
  have old: "py_getitem_key ?h1 (PRef m) ''content'' = Inr (PStr c)"
    by (simp add: py_getitem_key_def d1 c)
  show ?thesis
    unfolding add_context_to_sequence_def
    using m
    by (simp add: it alloc_def idx get old py_iadd_str_def dict_setitem_def d1
                  list_update_append1)
qed

lemma add_context_to_sequence_insert:
  assumes it: "py_iter h msg_sequence = Inr xs"
    and msgs: "list_all (is_message h) xs"
    and none: "\<not> list_ex (is_system h) xs"
  shows "add_context_to_sequence h msg_sequence context =
           (Inr (PRef (length h)),
            h @ [OList (PRef (Suc (length h)) # xs), system_message context])"
proof -
  let ?h1 = "h @ [OList xs]"
  have "\<not> list_ex (is_system ?h1) xs"
    using msgs none by (rule not_system_old)
  with list_all_is_message_append[OF msgs]
  have idx: "find_system_idx ?h1 0 None xs = Inr None"
    by (rule find_system_idx_none)
  show ?thesis
    unfolding add_context_to_sequence_def
    by (simp add: it alloc_def idx construct_message_def system_message_def[symmetric]
                  list_insert0_def obj_at_def nth_append list_update_append)
qed

lemma flat_thread_dispatch:
  assumes a: "obj_at h a = Some (OList xs)" and msgs: "list_all (is_message h) xs"
  shows "add_context_to_messages h (PRef a) context =
           add_context_to_sequence h (PRef a) context"
proof (cases xs)
  case Nil
  with a show ?thesis by (simp add: add_context_to_messages_def py_truthy_def)
next
  case (Cons x ys)
  with msgs have "is_message h x" by simp
  then obtain b d where "x = PRef b" "obj_at h b = Some (ODict d)"
    using is_message_dict by blast
  then have "\<not> isinstance_list_tuple h x"
    by (simp add: isinstance_list_tuple_def)
  with a Cons show ?thesis
    by (simp add: add_context_to_messages_def py_truthy_def py_getitem0_def)
qed

text \<open>
  C2. The claim is that on every flat thread with a system message the text is appended
  to the content of the last system message. On a valid thread whose system message has
  \<open>None\<close> as content the call raises \<open>TypeError\<close>; where the content is a list (a
  structured payload), the list is extended by the characters of the text one by one.
\<close>

theorem add_context_non_text_content:
  "list_all (is_message [ODict [(''role'', PStr ''system''), (''content'', PNone)],
                         OList [PRef 0]]) [PRef 0]
   \<and> add_context_to_messages
       [ODict [(''role'', PStr ''system''), (''content'', PNone)], OList [PRef 0]]
       (PRef 1) ''ctx'' =
     (Inl TypeError,
      [ODict [(''role'', PStr ''system''), (''content'', PNone)], OList [PRef 0],
       OList [PRef 0]])
   \<and> add_context_to_messages
       [OList [PStr ''part''],
        ODict [(''role'', PStr ''system''), (''content'', PRef 0)], OList [PRef 1]]
       (PRef 2) ''ctx'' =
     (Inr (PRef 3),
      [OList [PStr ''part'', PStr [CHR 0x0A], PStr [CHR 0x0A],
              PStr ''c'', PStr ''t'', PStr ''x''],
       ODict [(''role'', PStr ''system''), (''content'', PRef 0)], OList [PRef 1],
       OList [PRef 1]])"
  by (simp add: add_context_to_messages_def add_context_to_sequence_def py_truthy_def
                py_getitem0_def isinstance_list_tuple_def py_iter_def obj_at_def alloc_def
                py_getitem_key_def list_getitem_def py_iadd_str_def dict_setitem_def
                is_message_def isinstance_Dict_def py_contains_def nth_append)

text \<open>
  C2, as the code has it. Let \<open>messages\<close> be a flat list of messages. If it has a system
  message, and the last one is the dictionary at address \<open>m\<close> with a text \<open>c\<close> as its
  content, \<open>add_context_to_messages\<close> sets the content of that dictionary to \<open>c\<close>, two
  line feeds and the context; no other object changes, and the returned list holds the
  messages of the input. If it has no system message, the returned list holds a new
  system message with the context as content at index 0, then the messages of the input;
  for the empty list it holds the new system message only.
\<close>

theorem add_context_to_messages_flat:
  assumes a: "obj_at h a = Some (OList xs)" and msgs: "list_all (is_message h) xs"
  shows "(\<forall>pre m d c post.
            xs = pre @ PRef m # post \<and> is_system h (PRef m)
            \<and> \<not> list_ex (is_system h) post
            \<and> obj_at h m = Some (ODict d) \<and> map_of d ''content'' = Some (PStr c) \<longrightarrow>
            add_context_to_messages h (PRef a) context =
              (Inr (PRef (length h)),
               h[m := ODict (AList.update ''content'' (PStr (c @ [CHR 0x0A, CHR 0x0A] @ context)) d)]
                 @ [OList xs]))
       \<and> (\<not> list_ex (is_system h) xs \<longrightarrow>
            add_context_to_messages h (PRef a) context =
              (Inr (PRef (length h)),
               h @ [OList (PRef (Suc (length h)) # xs), system_message context]))
       \<and> (xs = [] \<longrightarrow>
            add_context_to_messages h (PRef a) context =
              (Inr (PRef (length h)),
               h @ [OList [PRef (Suc (length h))], system_message context]))"
proof (intro conjI allI impI)
  fix pre m d c post
  assume "xs = pre @ PRef m # post \<and> is_system h (PRef m)
            \<and> \<not> list_ex (is_system h) post
            \<and> obj_at h m = Some (ODict d) \<and> map_of d ''content'' = Some (PStr c)"
  then show "add_context_to_messages h (PRef a) context =
              (Inr (PRef (length h)),
               h[m := ODict (AList.update ''content'' (PStr (c @ [CHR 0x0A, CHR 0x0A] @ context)) d)]
                 @ [OList xs])"
    using add_context_to_sequence_append[OF py_iter_list[OF a] msgs]
    by (simp add: flat_thread_dispatch[OF a msgs])
next
  assume "\<not> list_ex (is_system h) xs"
  then show "add_context_to_messages h (PRef a) context =
              (Inr (PRef (length h)),
               h @ [OList (PRef (Suc (length h)) # xs), system_message context])"
    using add_context_to_sequence_insert[OF py_iter_list[OF a] msgs]
    by (simp add: flat_thread_dispatch[OF a msgs])
next
  assume "xs = []"
  then show "add_context_to_messages h (PRef a) context =
              (Inr (PRef (length h)),
               h @ [OList [PRef (Suc (length h))], system_message context])"
    using add_context_to_sequence_insert[OF py_iter_list[OF a] msgs]
    by (simp add: flat_thread_dispatch[OF a msgs])
qed

theorem add_context_to_messages_flat_witness:
  "add_context_to_messages
     [ODict [(''role'', PStr ''system''), (''content'', PStr ''base'')],
      ODict [(''role'', PStr ''user''), (''content'', PStr ''hi'')],
      OList [PRef 0, PRef 1]] (PRef 2) ''ctx'' =
   (Inr (PRef 3),
    [ODict [(''role'', PStr ''system''), (''content'', PStr (''base'' @ [CHR 0x0A, CHR 0x0A] @ ''ctx''))],
     ODict [(''role'', PStr ''user''), (''content'', PStr ''hi'')],
     OList [PRef 0, PRef 1],
     OList [PRef 0, PRef 1]])"
proof -
  let ?d = "[(''role'', PStr ''system''), (''content'', PStr ''base'')]"
  let ?h = "[ODict ?d,
      ODict [(''role'', PStr ''user''), (''content'', PStr ''hi'')],
      OList [PRef 0, PRef 1]]"
  have 1: "obj_at ?h 2 = Some (OList [PRef 0, PRef 1])"
    by (simp add: obj_at_def)
  have 2: "list_all (is_message ?h) [PRef 0, PRef 1]"
    by (simp add: is_message_def isinstance_Dict_def py_contains_def obj_at_def)
  have 3: "[PRef 0, PRef 1] = [] @ PRef 0 # [PRef 1] \<and> is_system ?h (PRef 0)
           \<and> \<not> list_ex (is_system ?h) [PRef 1]
           \<and> obj_at ?h 0 = Some (ODict ?d) \<and> map_of ?d ''content'' = Some (PStr ''base'')"
    by (simp add: is_system_def py_getitem_key_def obj_at_def)
  from add_context_to_messages_flat[OF 1 2, of "''ctx''"] 3
  have "add_context_to_messages ?h (PRef 2) ''ctx'' =
          (Inr (PRef (length ?h)),
           ?h[0 := ODict (AList.update ''content'' (PStr (''base'' @ [CHR 0x0A, CHR 0x0A] @ ''ctx'')) ?d)]
             @ [OList [PRef 0, PRef 1]])"
    by blast
  then show ?thesis by simp
qed

section \<open>Failures\<close>





























end
